theory Spec2Isabelle
  imports Main "HOL-Library.Word" "HOL-Library.Signed_Division"
begin

section \<open>The command-pattern undo/redo manager of \<open>7_smart_pointers/smart_pointer_examples.cpp\<close>\<close>

subsection \<open>The C++ type \<open>int\<close>\<close>

text \<open>
  \<open>int\<close> is taken as the 32-bit two's complement integer of the usual data models. A value
  is a \<open>32 word\<close>, read through \<open>sint\<close>. The C++ standard leaves a signed result outside the
  range of the type and a division by zero undefined; the model makes both a \<open>fault\<close>, so
  that every arithmetic step of the source either yields the exact mathematical result or
  a fault, never a silently wrapped value.
\<close>

type_synonym cint = "32 word"

datatype fault = SignedOverflow | DivisionByZero

definition in_range :: "int \<Rightarrow> bool" where
  "in_range i \<longleftrightarrow> - (2 ^ 31) \<le> i \<and> i < 2 ^ 31"

definition checked :: "int \<Rightarrow> fault + cint" where
  "checked i = (if in_range i then Inr (word_of_int i) else Inl SignedOverflow)"

text \<open>\<open>a + b\<close>, \<open>a - b\<close>, \<open>a * b\<close> on \<open>int\<close>.\<close>

definition int_add :: "cint \<Rightarrow> cint \<Rightarrow> fault + cint" where
  "int_add a b = checked (sint a + sint b)"

definition int_sub :: "cint \<Rightarrow> cint \<Rightarrow> fault + cint" where
  "int_sub a b = checked (sint a - sint b)"

definition int_mul :: "cint \<Rightarrow> cint \<Rightarrow> fault + cint" where
  "int_mul a b = checked (sint a * sint b)"

text \<open>
  \<open>a / b\<close> on \<open>int\<close>: the quotient truncated towards zero (\<open>sdiv\<close>), undefined for a zero
  divisor and for the one quotient that does not fit, \<open>INT_MIN / -1\<close>.
\<close>

definition int_div :: "cint \<Rightarrow> cint \<Rightarrow> fault + cint" where
  "int_div a b = (if b = 0 then Inl DivisionByZero else checked (sint a sdiv sint b))"

subsection \<open>Decimal output of an \<open>int\<close>\<close>

text \<open>What \<open>cout << n\<close> and \<open>to_string(n)\<close> produce for an \<open>int\<close>.\<close>

fun decimal_nat :: "nat \<Rightarrow> string" where
  "decimal_nat n =
     (if n < 10 then [''0123456789'' ! n]
      else decimal_nat (n div 10) @ [''0123456789'' ! (n mod 10)])"

declare decimal_nat.simps [simp del]

definition to_string :: "cint \<Rightarrow> string" where
  "to_string n =
     (if sint n < 0 then CHR ''-'' # decimal_nat (nat (- sint n)) else decimal_nat (nat (sint n)))"

subsection \<open>The world a command acts on\<close>

text \<open>
  A command holds \<open>int& value\<close>, a reference to a variable owned by the caller. A reference
  is an address, the caller's variables are a store from addresses to values, and two
  commands built on the same variable hold the same address. \<open>cout\<close> is the list of the
  lines written so far, oldest first; every output statement of the component writes one
  line and ends it with \<open>endl\<close>.
\<close>

type_synonym ref = nat

record world =
  vars :: "ref \<Rightarrow> cint"
  cout :: "string list"

definition assign :: "ref \<Rightarrow> cint \<Rightarrow> world \<Rightarrow> world" where
  "assign r v w = w\<lparr>vars := (vars w)(r := v)\<rparr>"

definition println :: "string \<Rightarrow> world \<Rightarrow> world" where
  "println l w = w\<lparr>cout := cout w @ [l]\<rparr>"

subsection \<open>Commands\<close>

text \<open>
  The two subclasses of \<open>Command\<close>, each with its reference and its operand. The virtual
  calls \<open>cmd->execute()\<close>, \<open>cmd->undo()\<close> and \<open>cmd->describe()\<close> dispatch on the constructor.
\<close>

datatype Command = AddCommand ref cint | MultiplyCommand ref cint

definition AddCommand_execute :: "ref \<Rightarrow> cint \<Rightarrow> world \<Rightarrow> fault + world" where
  "AddCommand_execute r amount w =
     (case int_add (vars w r) amount of
        Inl f \<Rightarrow> Inl f
      | Inr v \<Rightarrow> Inr (println (''  Executed: Add '' @ to_string amount @ '' (result: ''
                                 @ to_string v @ '')'') (assign r v w)))"

definition AddCommand_undo :: "ref \<Rightarrow> cint \<Rightarrow> world \<Rightarrow> fault + world" where
  "AddCommand_undo r amount w =
     (case int_sub (vars w r) amount of
        Inl f \<Rightarrow> Inl f
      | Inr v \<Rightarrow> Inr (println (''  Undone: Add '' @ to_string amount @ '' (result: ''
                                 @ to_string v @ '')'') (assign r v w)))"

definition MultiplyCommand_execute :: "ref \<Rightarrow> cint \<Rightarrow> world \<Rightarrow> fault + world" where
  "MultiplyCommand_execute r factor w =
     (case int_mul (vars w r) factor of
        Inl f \<Rightarrow> Inl f
      | Inr v \<Rightarrow> Inr (println (''  Executed: Multiply by '' @ to_string factor @ '' (result: ''
                                 @ to_string v @ '')'') (assign r v w)))"

definition MultiplyCommand_undo :: "ref \<Rightarrow> cint \<Rightarrow> world \<Rightarrow> fault + world" where
  "MultiplyCommand_undo r factor w =
     (case int_div (vars w r) factor of
        Inl f \<Rightarrow> Inl f
      | Inr v \<Rightarrow> Inr (println (''  Undone: Multiply by '' @ to_string factor @ '' (result: ''
                                 @ to_string v @ '')'') (assign r v w)))"

fun execute :: "Command \<Rightarrow> world \<Rightarrow> fault + world" where
  "execute (AddCommand r amount) w = AddCommand_execute r amount w"
| "execute (MultiplyCommand r factor) w = MultiplyCommand_execute r factor w"

fun Command_undo :: "Command \<Rightarrow> world \<Rightarrow> fault + world" where
  "Command_undo (AddCommand r amount) w = AddCommand_undo r amount w"
| "Command_undo (MultiplyCommand r factor) w = MultiplyCommand_undo r factor w"

fun describe :: "Command \<Rightarrow> string" where
  "describe (AddCommand r amount) = ''Add '' @ to_string amount"
| "describe (MultiplyCommand r factor) = ''Multiply by '' @ to_string factor"

text \<open>The precondition of \<open>MultiplyCommand::undo\<close>: the divisor is not zero.\<close>

fun nonzero_factor :: "Command \<Rightarrow> bool" where
  "nonzero_factor (AddCommand r amount) = True"
| "nonzero_factor (MultiplyCommand r factor) = (factor \<noteq> 0)"

subsection \<open>CommandManager\<close>

text \<open>
  The two \<open>stack<unique_ptr<Command>>\<close> members are lists with the top at the head. A
  \<open>unique_ptr\<close> moved from one stack to the other is the command itself changing lists.
\<close>

record CommandManager =
  undoStack :: "Command list"
  redoStack :: "Command list"

type_synonym state = "CommandManager \<times> world"

text \<open>\<open>while (!redoStack.empty()) redoStack.pop();\<close>\<close>

fun pop_all :: "Command list \<Rightarrow> Command list" where
  "pop_all [] = []"
| "pop_all (c # cs) = pop_all cs"

fun executeCommand :: "Command \<Rightarrow> state \<Rightarrow> fault + state" where
  "executeCommand cmd (m, w) =
     (case execute cmd w of
        Inl f \<Rightarrow> Inl f
      | Inr w' \<Rightarrow> Inr (m\<lparr>undoStack := cmd # undoStack m,
                         redoStack := pop_all (redoStack m)\<rparr>, w'))"

fun undo :: "state \<Rightarrow> fault + state" where
  "undo (m, w) =
     (case undoStack m of
        cmd # rest \<Rightarrow>
          (case Command_undo cmd w of
             Inl f \<Rightarrow> Inl f
           | Inr w' \<Rightarrow> Inr (m\<lparr>undoStack := rest, redoStack := cmd # redoStack m\<rparr>, w'))
      | [] \<Rightarrow> Inr (m, println ''  Nothing to undo'' w))"

fun redo :: "state \<Rightarrow> fault + state" where
  "redo (m, w) =
     (case redoStack m of
        cmd # rest \<Rightarrow>
          (case execute cmd w of
             Inl f \<Rightarrow> Inl f
           | Inr w' \<Rightarrow> Inr (m\<lparr>redoStack := rest, undoStack := cmd # undoStack m\<rparr>, w'))
      | [] \<Rightarrow> Inr (m, println ''  Nothing to redo'' w))"

declare executeCommand.simps [simp del] undo.simps [simp del] redo.simps [simp del]


text \<open>A default-constructed manager: both stacks empty.\<close>

definition fresh :: CommandManager where
  "fresh = \<lparr>undoStack = [], redoStack = []\<rparr>"

subsection \<open>Sequences of calls\<close>

text \<open>
  A caller's statements one after the other: the next call runs on the state the previous
  one left, and a fault ends the run.
\<close>

definition and_then :: "fault + 'a \<Rightarrow> ('a \<Rightarrow> fault + 'b) \<Rightarrow> fault + 'b" where
  "and_then r f = (case r of Inl e \<Rightarrow> Inl e | Inr s \<Rightarrow> f s)"

fun executeCommands :: "Command list \<Rightarrow> state \<Rightarrow> fault + state" where
  "executeCommands [] s = Inr s"
| "executeCommands (c # cs) s = and_then (executeCommand c s) (executeCommands cs)"

fun undo_times :: "nat \<Rightarrow> state \<Rightarrow> fault + state" where
  "undo_times 0 s = Inr s"
| "undo_times (Suc n) s = and_then (undo s) (undo_times n)"

fun redo_times :: "nat \<Rightarrow> state \<Rightarrow> fault + state" where
  "redo_times 0 s = Inr s"
| "redo_times (Suc n) s = and_then (redo s) (redo_times n)"

datatype call = ExecuteCommand Command | Undo | Redo

fun call_step :: "call \<Rightarrow> state \<Rightarrow> fault + state" where
  "call_step (ExecuteCommand c) s = executeCommand c s"
| "call_step Undo s = undo s"
| "call_step Redo s = redo s"

fun calls :: "call list \<Rightarrow> state \<Rightarrow> fault + state" where
  "calls [] s = Inr s"
| "calls (c # cs) s = and_then (call_step c s) (calls cs)"

text \<open>The calls whose command, if any, meets the precondition of its \<open>undo\<close>.\<close>

fun call_ok :: "call \<Rightarrow> bool" where
  "call_ok (ExecuteCommand c) = nonzero_factor c"
| "call_ok Undo = True"
| "call_ok Redo = True"

text \<open>
  What a caller can see of a result: the value of one variable and the contents of the
  two stacks.
\<close>

definition observe :: "ref \<Rightarrow> fault + state \<Rightarrow> fault + cint \<times> Command list \<times> Command list" where
  "observe r res =
     (case res of Inl f \<Rightarrow> Inl f | Inr (m, w) \<Rightarrow> Inr (vars w r, undoStack m, redoStack m))"

definition value_of :: "ref \<Rightarrow> fault + state \<Rightarrow> fault + cint" where
  "value_of r res = (case res of Inl f \<Rightarrow> Inl f | Inr (m, w) \<Rightarrow> Inr (vars w r))"

definition last_line :: "fault + state \<Rightarrow> fault + string" where
  "last_line res = (case res of Inl f \<Rightarrow> Inl f | Inr (m, w) \<Rightarrow> Inr (last (cout w)))"

subsection \<open>Example 6 of \<open>main\<close>\<close>

text \<open>
  \<open>int value = 10; CommandManager manager;\<close> The variable \<open>value\<close> lives at address 0,
  nothing has been written yet. \<open>main\<close> makes the first six calls of \<open>scenario\<close>; the last
  two continue it with a new command after the redo and one more redo.
\<close>

definition value_ref :: ref where
  "value_ref = 0"

definition main_world :: "cint \<Rightarrow> world" where
  "main_world v = \<lparr>vars = (\<lambda>r. 0)(value_ref := v), cout = []\<rparr>"

definition main_commands :: "Command list" where
  "main_commands =
     [AddCommand value_ref 5, MultiplyCommand value_ref 2, AddCommand value_ref 10]"

definition scenario :: "call list" where
  "scenario =
     map ExecuteCommand main_commands
     @ [Undo, Undo, Redo, ExecuteCommand (AddCommand value_ref 1), Redo]"

definition after :: "nat \<Rightarrow> fault + state" where
  "after k = calls (take k scenario) (fresh, main_world 10)"

subsection \<open>Undo stacks that unwind\<close>

text \<open>
  \<open>unwinds cs w\<close>: undoing the commands of \<open>cs\<close> from the top down, starting in \<open>w\<close>, meets
  no fault.
\<close>

fun unwinds :: "Command list \<Rightarrow> world \<Rightarrow> bool" where
  "unwinds [] w = True"
| "unwinds (c # cs) w = (case Command_undo c w of Inl f \<Rightarrow> False | Inr w' \<Rightarrow> unwinds cs w')"


text \<open>
  The invariant of the states that calls on the manager reach: the undo stack unwinds, and
  no command held has a zero factor.
\<close>

definition consistent :: "state \<Rightarrow> bool" where
  "consistent s \<longleftrightarrow>
     unwinds (undoStack (fst s)) (snd s)
     \<and> (\<forall>c\<in>set (undoStack (fst s) @ redoStack (fst s)). nonzero_factor c)"

section \<open>Basic facts\<close>

subsection \<open>Arithmetic\<close>

lemma in_range_sint: "in_range (sint (a :: cint))"
  using sint_ge [of a] sint_lt [of a] by (simp add: in_range_def)

lemma sint_checked: "checked i = Inr c \<Longrightarrow> sint c = i"
  by (auto simp: checked_def in_range_def sint_sbintrunc' split: if_splits
      intro!: signed_take_bit_int_eq_self)

lemma checked_sint: "checked (sint a) = Inr a"
  by (simp add: checked_def in_range_sint)

lemma mult_sdiv_cancel: "b \<noteq> 0 \<Longrightarrow> (a * b) sdiv b = (a :: int)"
  by (metis div_dvd_sgn_abs dvd_triv_right nonzero_mult_div_cancel_right
    signed_divide_int_def)

lemma sint_nonzero: "b \<noteq> 0 \<Longrightarrow> sint (b :: cint) \<noteq> 0"
  by (simp add: signed_eq_0_iff)

lemma int_add_sub: "int_add a b = Inr c \<Longrightarrow> int_sub c b = Inr a"
  by (simp add: int_add_def int_sub_def sint_checked checked_sint)

lemma int_mul_div: "int_mul a b = Inr c \<Longrightarrow> b \<noteq> 0 \<Longrightarrow> int_div c b = Inr a"
  by (simp add: int_mul_def int_div_def sint_checked checked_sint mult_sdiv_cancel sint_nonzero)

lemma int_div_zero: "int_div a 0 = Inl DivisionByZero"
  by (simp add: int_div_def)

lemma int_div_nonzero: "b \<noteq> 0 \<Longrightarrow> int_div a b \<noteq> Inl DivisionByZero"
  by (simp add: int_div_def checked_def)

lemma abs_sdiv_le: "\<bar>(a::int) sdiv b\<bar> \<le> \<bar>a\<bar> div \<bar>b\<bar>"
proof -
  have "0 \<le> \<bar>a\<bar> div \<bar>b\<bar>"
    by (simp add: pos_imp_zdiv_nonneg_iff div_int_pos_iff)
  moreover have "\<bar>a sdiv b\<bar> = \<bar>sgn a\<bar> * \<bar>sgn b\<bar> * \<bar>\<bar>a\<bar> div \<bar>b\<bar>\<bar>"
    by (simp add: signed_divide_int_def abs_mult)
  moreover have "\<bar>sgn a\<bar> * \<bar>sgn b\<bar> \<le> 1"
    by (simp add: abs_sgn_eq)
  ultimately show ?thesis
    by (simp add: mult_left_le_one_le)
qed

lemma sdiv_in_range:
  assumes a: "in_range a" and nz: "b \<noteq> 0" and ne: "\<not> (a = - (2 ^ 31) \<and> b = - 1)"
  shows "in_range (a sdiv b)"
proof (cases "\<bar>b\<bar> = 1")
  case True
  then consider "b = 1" | "b = - 1" by fastforce
  then show ?thesis
  proof cases
    case 1
    with a show ?thesis by simp
  next
    case 2
    with a ne show ?thesis by (simp add: in_range_def)
  qed
next
  case False
  with nz have b: "1 < \<bar>b\<bar>" by simp
  show ?thesis
  proof (cases "a = 0")
    case True
    then show ?thesis by (simp add: in_range_def)
  next
    case False
    with b have "\<bar>a\<bar> div \<bar>b\<bar> < \<bar>a\<bar>"
      by (simp add: int_div_less_self)
    with abs_sdiv_le [of a b] have "\<bar>a sdiv b\<bar> < \<bar>a\<bar>" by simp
    with a show ?thesis unfolding in_range_def by linarith
  qed
qed

lemma int_div_Inr:
  assumes "b \<noteq> 0" and "\<not> (sint a = - (2 ^ 31) \<and> sint b = - 1)"
  shows "\<exists>c. int_div a b = Inr c"
  using assms sdiv_in_range [of "sint a" "sint b"]
  by (simp add: int_div_def checked_def in_range_sint sint_nonzero)

lemma and_then_Inr [simp]: "and_then (Inr s) f = f s"
  by (simp add: and_then_def)

lemma and_then_Inl [simp]: "and_then (Inl e) f = Inl e"
  by (simp add: and_then_def)

lemma and_then_eq_Inr: "and_then r f = Inr t \<longleftrightarrow> (\<exists>s. r = Inr s \<and> f s = Inr t)"
  by (cases r) simp_all

lemma vars_println [simp]: "vars (println l w) = vars w"
  by (simp add: println_def)

lemma vars_assign [simp]: "vars (assign r v w) = (vars w)(r := v)"
  by (simp add: assign_def)

lemma pop_all_empty [simp]: "pop_all cs = []"
  by (induction cs) simp_all

subsection \<open>A command on the store\<close>

lemma execute_vars:
  assumes "execute c w = Inr w'" and "vars v = vars w"
  shows "\<exists>v'. execute c v = Inr v' \<and> vars v' = vars w'"
  using assms
  by (cases c) (auto simp: AddCommand_execute_def MultiplyCommand_execute_def split: sum.splits)

lemma Command_undo_vars:
  assumes "Command_undo c w = Inr w'" and "vars v = vars w"
  shows "\<exists>v'. Command_undo c v = Inr v' \<and> vars v' = vars w'"
  using assms
  by (cases c) (auto simp: AddCommand_undo_def MultiplyCommand_undo_def split: sum.splits)

lemma undo_after_execute:
  assumes "execute c w = Inr w1" and "nonzero_factor c" and "vars w2 = vars w1"
  shows "\<exists>w3. Command_undo c w2 = Inr w3 \<and> vars w3 = vars w"
  using assms
  by (cases c)
    (auto simp: AddCommand_execute_def MultiplyCommand_execute_def AddCommand_undo_def
      MultiplyCommand_undo_def int_add_sub int_mul_div split: sum.splits)

subsection \<open>The manager\<close>

lemma executeCommand_Inr:
  "executeCommand c (m, w) = Inr (m', w') \<longleftrightarrow>
     execute c w = Inr w' \<and> m' = m\<lparr>undoStack := c # undoStack m, redoStack := []\<rparr>"
  by (auto simp: executeCommand.simps split: sum.splits)

lemma undo_times_Suc_right: "undo_times (Suc n) s = and_then (undo_times n s) undo"
proof (induction n arbitrary: s)
  case 0
  show ?case by (cases "undo s") simp_all
next
  case (Suc n)
  show ?case
  proof (cases "undo s")
    case (Inl e)
    then show ?thesis by simp
  next
    case (Inr t)
    then show ?thesis using Suc [of t] by simp
  qed
qed

lemma executeCommands_append:
  "executeCommands (as @ bs) s = and_then (executeCommands as s) (executeCommands bs)"
proof (induction as arbitrary: s)
  case Nil
  show ?case by simp
next
  case (Cons a as)
  show ?case using Cons by (cases "executeCommand a s") simp_all
qed

lemma undo_all:
  assumes "executeCommands cs (m, w) = Inr (m', w')" and "\<forall>c\<in>set cs. nonzero_factor c"
  shows "\<exists>m3 w3. undo_times (length cs) (m', w') = Inr (m3, w3) \<and> vars w3 = vars w
           \<and> undoStack m3 = undoStack m \<and> redoStack m3 = cs @ redoStack m'"
  using assms
proof (induction cs arbitrary: m w)
  case Nil
  then show ?case by simp
next
  case (Cons c cs)
  from Cons.prems(1) obtain m1 w1
    where step: "executeCommand c (m, w) = Inr (m1, w1)"
      and rest: "executeCommands cs (m1, w1) = Inr (m', w')"
    by (auto simp: and_then_eq_Inr)
  have ex: "execute c w = Inr w1" and m1: "undoStack m1 = c # undoStack m"
    using step by (simp_all add: executeCommand_Inr)
  from Cons.IH [OF rest] Cons.prems(2) obtain m3 w3
    where u: "undo_times (length cs) (m', w') = Inr (m3, w3)"
      and v: "vars w3 = vars w1"
      and us: "undoStack m3 = undoStack m1"
      and rs: "redoStack m3 = cs @ redoStack m'"
    by auto
  from undo_after_execute [OF ex _ v] Cons.prems(2) obtain w4
    where cu: "Command_undo c w3 = Inr w4" and v4: "vars w4 = vars w"
    by auto
  have "undo (m3, w3) = Inr (m3\<lparr>undoStack := undoStack m, redoStack := c # redoStack m3\<rparr>, w4)"
    using us m1 cu by (simp add: undo.simps)
  then show ?case
    using u v4 rs by (simp add: undo_times_Suc_right del: undo_times.simps)
qed

lemma redo_all:
  assumes "executeCommands bs (m1, w1) = Inr (m', w')"
    and "vars w2 = vars w1" and "undoStack m2 = undoStack m1" and "redoStack m2 = bs @ rest"
  shows "\<exists>m3 w3. redo_times (length bs) (m2, w2) = Inr (m3, w3) \<and> vars w3 = vars w'
           \<and> undoStack m3 = undoStack m' \<and> redoStack m3 = rest"
  using assms
proof (induction bs arbitrary: m1 w1 m2 w2)
  case Nil
  then show ?case by simp
next
  case (Cons b bs)
  from Cons.prems(1) obtain ma wa
    where step: "executeCommand b (m1, w1) = Inr (ma, wa)"
      and more: "executeCommands bs (ma, wa) = Inr (m', w')"
    by (auto simp: and_then_eq_Inr)
  have ex: "execute b w1 = Inr wa" and ma: "undoStack ma = b # undoStack m1"
    using step by (simp_all add: executeCommand_Inr)
  from execute_vars [OF ex Cons.prems(2)] obtain wb
    where exb: "execute b w2 = Inr wb" and vb: "vars wb = vars wa"
    by auto
  define mb where "mb = m2\<lparr>redoStack := bs @ rest, undoStack := b # undoStack m2\<rparr>"
  have r: "redo (m2, w2) = Inr (mb, wb)"
    using Cons.prems(4) exb by (simp add: mb_def redo.simps)
  have "undoStack mb = undoStack ma" "redoStack mb = bs @ rest"
    using ma Cons.prems(3) by (simp_all add: mb_def)
  from Cons.IH [OF more vb this] r show ?case
    by simp
qed



subsection \<open>States reached through the manager\<close>

lemma unwinds_vars: "vars v = vars w \<Longrightarrow> unwinds cs w \<Longrightarrow> unwinds cs v"
proof (induction cs arbitrary: v w)
  case Nil
  show ?case by simp
next
  case (Cons c cs)
  from Cons.prems(2) obtain w' where cu: "Command_undo c w = Inr w'" and u: "unwinds cs w'"
    by (auto split: sum.splits)
  from Command_undo_vars [OF cu Cons.prems(1)] obtain v'
    where "Command_undo c v = Inr v'" and "vars v' = vars w'"
    by auto
  with Cons.IH [OF _ u] show ?case by simp
qed

lemma unwinds_push:
  assumes "execute c w = Inr w'" and "nonzero_factor c" and "unwinds cs w"
  shows "unwinds (c # cs) w'"
proof -
  from undo_after_execute [OF assms(1,2) refl] obtain w3
    where "Command_undo c w' = Inr w3" and "vars w3 = vars w"
    by auto
  with unwinds_vars [OF _ assms(3)] show ?thesis by simp
qed

lemma consistent_step:
  assumes "consistent s" and "call_ok c" and "call_step c s = Inr t"
  shows "consistent t"
proof (cases s)
  case (Pair m w)
  from assms(1) have u: "unwinds (undoStack m) w"
    and nz: "\<forall>c\<in>set (undoStack m @ redoStack m). nonzero_factor c"
    by (simp_all add: consistent_def Pair)
  show ?thesis
  proof (cases c)
    case (ExecuteCommand x)
    with assms(3) Pair obtain w' where ex: "execute x w = Inr w'"
      and t: "t = (m\<lparr>undoStack := x # undoStack m, redoStack := []\<rparr>, w')"
      by (auto simp: executeCommand.simps split: sum.splits)
    from assms(2) ExecuteCommand have "nonzero_factor x" by simp
    with unwinds_push [OF ex _ u] nz show ?thesis
      by (simp add: consistent_def t del: unwinds.simps)
  next
    case Undo
    show ?thesis
    proof (cases "undoStack m")
      case Nil
      with assms(3) Undo Pair have "t = (m, println ''  Nothing to undo'' w)"
        by (simp add: undo.simps)
      with Nil nz show ?thesis
        by (simp add: consistent_def)
    next
      case (Cons x xs)
      with assms(3) Undo Pair obtain w' where "Command_undo x w = Inr w'"
        and t: "t = (m\<lparr>undoStack := xs, redoStack := x # redoStack m\<rparr>, w')"
        by (auto simp: undo.simps split: sum.splits)
      with u Cons have "unwinds xs w'" by simp
      with nz Cons show ?thesis
        by (simp add: consistent_def t)
    qed
  next
    case Redo
    show ?thesis
    proof (cases "redoStack m")
      case Nil
      with assms(3) Redo Pair have "t = (m, println ''  Nothing to redo'' w)"
        by (simp add: redo.simps)
      with unwinds_vars [OF _ u, of "println ''  Nothing to redo'' w"] nz show ?thesis
        by (simp add: consistent_def)
    next
      case (Cons x xs)
      with assms(3) Redo Pair obtain w' where ex: "execute x w = Inr w'"
        and t: "t = (m\<lparr>redoStack := xs, undoStack := x # undoStack m\<rparr>, w')"
        by (auto simp: redo.simps split: sum.splits)
      from nz Cons have "nonzero_factor x" by simp
      with unwinds_push [OF ex _ u] nz Cons show ?thesis
        by (simp add: consistent_def t del: unwinds.simps)
    qed
  qed
qed

lemma consistent_calls:
  assumes "consistent s" and "\<forall>c\<in>set cs. call_ok c" and "calls cs s = Inr t"
  shows "consistent t"
  using assms
proof (induction cs arbitrary: s)
  case Nil
  then show ?case by simp
next
  case (Cons c cs)
  from Cons.prems(3) obtain s1 where "call_step c s = Inr s1" and "calls cs s1 = Inr t"
    by (auto simp: and_then_eq_Inr)
  with Cons.IH [of s1] Cons.prems(1,2) consistent_step [of s c s1] show ?case
    by simp
qed

lemma consistent_fresh: "consistent (fresh, w)"
  by (simp add: consistent_def fresh_def)

lemma consistent_undo: "consistent s \<Longrightarrow> \<exists>t. undo s = Inr t"
  by (cases s) (auto simp: consistent_def undo.simps split: list.splits sum.splits)


subsection \<open>Evaluating concrete runs\<close>

lemmas run_defs =
  executeCommand.simps undo.simps redo.simps AddCommand_execute_def AddCommand_undo_def
  MultiplyCommand_execute_def MultiplyCommand_undo_def int_add_def int_sub_def int_mul_def
  int_div_def checked_def in_range_def println_def assign_def main_world_def fresh_def
  value_ref_def

lemma main_commands_run:
  "executeCommands main_commands (fresh, main_world 10) =
     Inr (projr (executeCommands main_commands (fresh, main_world 10)))"
  by (simp add: main_commands_def run_defs)

lemma zero_factor_first_run:
  "executeCommands [MultiplyCommand value_ref 0, AddCommand value_ref 3] (fresh, main_world 7) =
     Inr (projr (executeCommands [MultiplyCommand value_ref 0, AddCommand value_ref 3]
                   (fresh, main_world 7)))"
  by (simp add: run_defs)

lemma scenario_run:
  "calls scenario (fresh, main_world 10) = Inr (projr (calls scenario (fresh, main_world 10)))"
  by (simp add: scenario_def main_commands_def run_defs)

text \<open>
  The two faults at work: a product outside the range of \<open>int\<close>, and a sum outside it.
\<close>

lemma MultiplyCommand_execute_overflow:
  "execute (MultiplyCommand value_ref 4) (main_world 1073741824) = Inl SignedOverflow"
  by (simp add: run_defs)

lemma AddCommand_execute_overflow:
  "execute (AddCommand value_ref 1) (main_world 2147483647) = Inl SignedOverflow"
  by (simp add: run_defs)

section \<open>The claims\<close>

subsection \<open>C1: undoing everything restores the start value\<close>

text \<open>
  As stated, for every start value and every sequence of commands, the claim fails: a
  \<open>MultiplyCommand\<close> with factor 0 executes (10 becomes 0), and its undo divides by zero.
\<close>

theorem undo_n_restores_counterexample:
  "and_then (executeCommands [MultiplyCommand value_ref 0] (fresh, main_world 10))
     (undo_times 1) = Inl DivisionByZero
   \<and> value_of value_ref
        (and_then (executeCommands [MultiplyCommand value_ref 0] (fresh, main_world 10))
           (undo_times 1)) \<noteq> Inr 10"
  by (simp add: run_defs value_of_def)

text \<open>
  C1, with the precondition the code needs. Let the \<open>n\<close> calls of \<open>executeCommand\<close>, started
  in any state of the manager and the variables, all complete (no signed overflow), and
  let no \<open>MultiplyCommand\<close> among them have factor 0. Then \<open>n\<close> calls of \<open>undo()\<close> in a row
  complete as well and leave every variable, the target among them, with the value it
  had before the first \<open>executeCommand\<close>.
\<close>

theorem undo_n_restores:
  assumes "executeCommands cs s = Inr s'" and "\<forall>c\<in>set cs. nonzero_factor c"
  shows "\<exists>s''. undo_times (length cs) s' = Inr s'' \<and> vars (snd s'') = vars (snd s)"
proof -
  obtain m w m' w' where "s = (m, w)" and "s' = (m', w')"
    by (cases s, cases s')
  with undo_all [of cs m w m' w'] assms show ?thesis
    by auto
qed

theorem undo_n_restores_witness:
  "value_of value_ref
     (undo_times (length main_commands)
        (projr (executeCommands main_commands (fresh, main_world 10)))) = Inr 10"
proof -
  have "\<forall>c\<in>set main_commands. nonzero_factor c"
    by (simp add: main_commands_def)
  from undo_n_restores [OF main_commands_run this] obtain s''
    where "undo_times (length main_commands)
             (projr (executeCommands main_commands (fresh, main_world 10))) = Inr s''"
      and "vars (snd s'') = vars (main_world 10)"
    by auto
  then show ?thesis
    by (cases s'') (simp add: value_of_def main_world_def)
qed

subsection \<open>C2: m undos followed by m redos\<close>

text \<open>
  As stated the claim fails for the same reason: after \<open>AddCommand(3)\<close> and
  \<open>MultiplyCommand(0)\<close> on 7, the first undo divides by zero and no redo is reached.
\<close>

theorem undo_redo_roundtrip_counterexample:
  "and_then
     (and_then
        (executeCommands [AddCommand value_ref 3, MultiplyCommand value_ref 0]
           (fresh, main_world 7))
        (undo_times 1))
     (redo_times 1) = Inl DivisionByZero"
  by (simp add: run_defs)

text \<open>
  C2, with the precondition the code needs. Let the \<open>n\<close> calls of \<open>executeCommand\<close> all
  complete (no signed overflow), let \<open>k \<le> n\<close>, and let no \<open>MultiplyCommand\<close> among the last
  \<open>k\<close> commands, the ones that are undone, have factor 0. Then \<open>k\<close> undos followed by \<open>k\<close>
  redos complete, and afterwards every variable and both stacks are what they were
  immediately after the \<open>n\<close> executes. The commands before the last \<open>k\<close> are never undone
  and may have any factor.
\<close>

theorem undo_redo_roundtrip:
  assumes "executeCommands cs s = Inr s'" and "k \<le> length cs"
    and "\<forall>c\<in>set (drop (length cs - k) cs). nonzero_factor c"
  shows "\<exists>s''. and_then (undo_times k s') (redo_times k) = Inr s''
           \<and> vars (snd s'') = vars (snd s') \<and> fst s'' = fst s'"
proof (cases k)
  case 0
  then show ?thesis by simp
next
  case (Suc j)
  obtain m w m' w' where s: "s = (m, w)" and s': "s' = (m', w')"
    by (cases s, cases s')
  define as bs where "as = take (length cs - k) cs" and "bs = drop (length cs - k) cs"
  have cs: "cs = as @ bs" and len: "length bs = k" and ne: "bs \<noteq> []"
    using assms(2) Suc by (auto simp: as_def bs_def)
  from assms(1) obtain m1 w1
    where pre: "executeCommands as (m, w) = Inr (m1, w1)"
      and post: "executeCommands bs (m1, w1) = Inr (m', w')"
    unfolding cs s s' executeCommands_append by (auto simp: and_then_eq_Inr)
  have empty: "redoStack m' = []"
  proof -
    from ne obtain xs x where bs: "bs = xs @ [x]"
      by (metis rev_exhaust)
    from post obtain ma wa where "executeCommand x (ma, wa) = Inr (m', w')"
      unfolding bs executeCommands_append by (auto simp: and_then_eq_Inr)
    then show ?thesis
      by (simp add: executeCommand_Inr)
  qed
  from assms(3) have nz: "\<forall>c\<in>set bs. nonzero_factor c"
    by (simp add: bs_def)
  from undo_all [OF post nz] obtain m3 w3
    where u: "undo_times (length bs) (m', w') = Inr (m3, w3)"
      and a: "vars w3 = vars w1" "undoStack m3 = undoStack m1" "redoStack m3 = bs @ []"
    using empty by auto
  from redo_all [OF post a] obtain m4 w4
    where r: "redo_times (length bs) (m3, w3) = Inr (m4, w4)"
      and v: "vars w4 = vars w'" and "undoStack m4 = undoStack m'" "redoStack m4 = []"
    by auto
  then have "m4 = m'"
    using empty by simp
  with u r v show ?thesis
    by (simp add: len s')
qed

theorem undo_redo_roundtrip_witness:
  "observe value_ref
     (and_then
        (undo_times 1
           (projr (executeCommands [MultiplyCommand value_ref 0, AddCommand value_ref 3]
                     (fresh, main_world 7))))
        (redo_times 1))
   = Inr (3, [AddCommand value_ref 3, MultiplyCommand value_ref 0], [])"
proof -
  let ?cs = "[MultiplyCommand value_ref 0, AddCommand value_ref 3]"
  let ?s' = "projr (executeCommands ?cs (fresh, main_world 7))"
  have "1 \<le> length ?cs" and "\<forall>c\<in>set (drop (length ?cs - 1) ?cs). nonzero_factor c"
    by simp_all
  from undo_redo_roundtrip [OF zero_factor_first_run this] obtain s''
    where "and_then (undo_times 1 ?s') (redo_times 1) = Inr s''"
      and "vars (snd s'') = vars (snd ?s')" and "fst s'' = fst ?s'"
    by auto
  then have "observe value_ref (and_then (undo_times 1 ?s') (redo_times 1))
      = observe value_ref (Inr ?s')"
    by (simp add: observe_def split_beta)
  also have "\<dots> = Inr (3, [AddCommand value_ref 3, MultiplyCommand value_ref 0], [])"
    by (simp add: observe_def run_defs)
  finally show ?thesis .
qed

subsection \<open>C3: executeCommand clears the redo history\<close>

text \<open>
  C3. \<open>executeCommand\<close> runs the command's \<open>execute()\<close>, pushes the command on \<open>undoStack\<close>
  and leaves \<open>redoStack\<close> empty; a \<open>redo()\<close> right after it changes neither the variables
  nor the stacks and only writes the line "Nothing to redo". \<open>undo()\<close> and \<open>redo()\<close>
  never drop a command: the commands of \<open>undoStack\<close>, bottom to top, followed by those of
  \<open>redoStack\<close>, top to bottom, are the same list before and after the call. So
  \<open>executeCommand\<close> is the only call that takes commands out of \<open>redoStack\<close> without putting
  them on \<open>undoStack\<close>.
\<close>

theorem executeCommand_clears_redoStack:
  "executeCommand c (m, w) =
     (case execute c w of
        Inl f \<Rightarrow> Inl f
      | Inr w' \<Rightarrow> Inr (m\<lparr>undoStack := c # undoStack m, redoStack := []\<rparr>, w'))
   \<and> (executeCommand c (m, w) = Inr (m', w') \<longrightarrow>
        redo (m', w') = Inr (m', w'\<lparr>cout := cout w' @ [''  Nothing to redo'']\<rparr>))
   \<and> (undo s = Inr t \<longrightarrow>
        rev (undoStack (fst t)) @ redoStack (fst t) = rev (undoStack (fst s)) @ redoStack (fst s))
   \<and> (redo p = Inr q \<longrightarrow>
        rev (undoStack (fst q)) @ redoStack (fst q) = rev (undoStack (fst p)) @ redoStack (fst p))"
proof (intro conjI impI)
  show "executeCommand c (m, w) =
     (case execute c w of
        Inl f \<Rightarrow> Inl f
      | Inr w' \<Rightarrow> Inr (m\<lparr>undoStack := c # undoStack m, redoStack := []\<rparr>, w'))"
    by (simp add: executeCommand.simps split: sum.splits)
next
  assume "executeCommand c (m, w) = Inr (m', w')"
  then have "redoStack m' = []"
    by (simp add: executeCommand_Inr)
  then show "redo (m', w') = Inr (m', w'\<lparr>cout := cout w' @ [''  Nothing to redo'']\<rparr>)"
    by (simp add: redo.simps println_def)
next
  assume "undo s = Inr t"
  then show "rev (undoStack (fst t)) @ redoStack (fst t)
      = rev (undoStack (fst s)) @ redoStack (fst s)"
    by (cases s) (auto simp: undo.simps split: list.splits sum.splits)
next
  assume "redo p = Inr q"
  then show "rev (undoStack (fst q)) @ redoStack (fst q)
      = rev (undoStack (fst p)) @ redoStack (fst p)"
    by (cases p) (auto simp: redo.simps split: list.splits sum.splits)
qed

theorem executeCommand_clears_redoStack_witness:
  "executeCommand (AddCommand value_ref 1)
      (\<lparr>undoStack = [AddCommand value_ref 5], redoStack = [MultiplyCommand value_ref 2]\<rparr>,
       main_world 15)
     = Inr (\<lparr>undoStack = [AddCommand value_ref 1, AddCommand value_ref 5], redoStack = []\<rparr>,
            \<lparr>vars = (\<lambda>r. 0)(value_ref := 16), cout = [''  Executed: Add 1 (result: 16)'']\<rparr>)
   \<and> redo (\<lparr>undoStack = [AddCommand value_ref 1, AddCommand value_ref 5], redoStack = []\<rparr>,
            \<lparr>vars = (\<lambda>r. 0)(value_ref := 16), cout = [''  Executed: Add 1 (result: 16)'']\<rparr>)
     = Inr (\<lparr>undoStack = [AddCommand value_ref 1, AddCommand value_ref 5], redoStack = []\<rparr>,
            \<lparr>vars = (\<lambda>r. 0)(value_ref := 16),
             cout = [''  Executed: Add 1 (result: 16)'', ''  Nothing to redo'']\<rparr>)
   \<and> rev [AddCommand value_ref 5] @ [MultiplyCommand value_ref 2, AddCommand value_ref 10]
     = rev [MultiplyCommand value_ref 2, AddCommand value_ref 5] @ [AddCommand value_ref 10]
   \<and> rev [AddCommand value_ref 10, AddCommand value_ref 5] @ []
     = rev [AddCommand value_ref 5] @ [AddCommand value_ref 10]"
proof -
  let ?m = "\<lparr>undoStack = [AddCommand value_ref 5], redoStack = [MultiplyCommand value_ref 2]\<rparr>"
  let ?m' = "\<lparr>undoStack = [AddCommand value_ref 1, AddCommand value_ref 5], redoStack = []\<rparr>"
  let ?w' = "\<lparr>vars = (\<lambda>r. 0)(value_ref := 16), cout = [''  Executed: Add 1 (result: 16)'']\<rparr>"
  let ?s = "(\<lparr>undoStack = [MultiplyCommand value_ref 2, AddCommand value_ref 5],
              redoStack = [AddCommand value_ref 10]\<rparr>, main_world 30)"
  let ?t = "(\<lparr>undoStack = [AddCommand value_ref 5],
              redoStack = [MultiplyCommand value_ref 2, AddCommand value_ref 10]\<rparr>,
             \<lparr>vars = (\<lambda>r. 0)(value_ref := 15),
              cout = [''  Undone: Multiply by 2 (result: 15)'']\<rparr>)"
  let ?p = "(\<lparr>undoStack = [AddCommand value_ref 5], redoStack = [AddCommand value_ref 10]\<rparr>,
             main_world 15)"
  let ?q = "(\<lparr>undoStack = [AddCommand value_ref 10, AddCommand value_ref 5], redoStack = []\<rparr>,
             \<lparr>vars = (\<lambda>r. 0)(value_ref := 25),
              cout = [''  Executed: Add 10 (result: 25)'']\<rparr>)"
  have e: "executeCommand (AddCommand value_ref 1) (?m, main_world 15) = Inr (?m', ?w')"
    by (simp add: run_defs to_string_def decimal_nat.simps)
  have u: "undo ?s = Inr ?t"
    by (simp add: run_defs to_string_def decimal_nat.simps)
  have r: "redo ?p = Inr ?q"
    by (simp add: run_defs to_string_def decimal_nat.simps)
  from executeCommand_clears_redoStack
         [of "AddCommand value_ref 1" ?m "main_world 15" ?m' ?w' ?s ?t ?p ?q] e u r
  show ?thesis by simp
qed

subsection \<open>C4: the concrete scenario\<close>

text \<open>
  C4. From \<open>value = 10\<close>: \<open>AddCommand(5)\<close> gives 15, \<open>MultiplyCommand(2)\<close> gives 30,
  \<open>AddCommand(10)\<close> gives 40; two undos give 15; one redo gives 30;
  \<open>executeCommand(AddCommand(1))\<close> gives 31 and discards the redo entry of \<open>AddCommand(10)\<close>;
  the redo after it changes neither the value nor the stacks and reports
  "Nothing to redo". Each line shows the value of the variable, \<open>undoStack\<close> and
  \<open>redoStack\<close> after that many calls of the scenario.
\<close>

theorem scenario_values:
  "observe value_ref (after 1) = Inr (15, [AddCommand value_ref 5], [])
 \<and> observe value_ref (after 2) =
       Inr (30, [MultiplyCommand value_ref 2, AddCommand value_ref 5], [])
 \<and> observe value_ref (after 3) =
       Inr (40, [AddCommand value_ref 10, MultiplyCommand value_ref 2, AddCommand value_ref 5], [])
 \<and> observe value_ref (after 5) =
       Inr (15, [AddCommand value_ref 5], [MultiplyCommand value_ref 2, AddCommand value_ref 10])
 \<and> observe value_ref (after 6) =
       Inr (30, [MultiplyCommand value_ref 2, AddCommand value_ref 5], [AddCommand value_ref 10])
 \<and> observe value_ref (after 7) =
       Inr (31, [AddCommand value_ref 1, MultiplyCommand value_ref 2, AddCommand value_ref 5], [])
 \<and> observe value_ref (after 8) = observe value_ref (after 7)
 \<and> last_line (after 8) = Inr ''  Nothing to redo''"
  by (intro conjI; code_simp)

subsection \<open>C5: a command's undo inverts its execute\<close>

text \<open>
  As stated, for every command and every target value, the claim fails:
  \<open>MultiplyCommand(0)\<close> executes on 5, and its undo right after divides by zero.
\<close>

theorem undo_inverts_execute_counterexample:
  "and_then (execute (MultiplyCommand value_ref 0) (main_world 5))
     (Command_undo (MultiplyCommand value_ref 0)) = Inl DivisionByZero"
  by (simp add: run_defs)

text \<open>
  C5, with the precondition the code needs. If \<open>execute()\<close> completes (no signed overflow)
  and the command is not a \<open>MultiplyCommand\<close> with factor 0, then \<open>undo()\<close> called right after
  it completes and every variable has the value it had before the \<open>execute()\<close>. The undo
  of \<open>AddCommand(amount)\<close> subtracts \<open>amount\<close>, the undo of \<open>MultiplyCommand(factor)\<close> divides
  by \<open>factor\<close> with the quotient truncated towards zero; \<open>(v + amount) - amount = v\<close>
  whenever the sum is in range, and \<open>(v * factor) / factor = v\<close> whenever the product is in
  range and \<open>factor\<close> is not 0.
\<close>

theorem undo_inverts_execute:
  "(execute c w = Inr w' \<and> nonzero_factor c \<longrightarrow>
      (\<exists>w''. Command_undo c w' = Inr w'' \<and> vars w'' = vars w))
   \<and> (int_add v amount = Inr v' \<longrightarrow> int_sub v' amount = Inr v)
   \<and> (int_mul x factor = Inr x' \<and> factor \<noteq> 0 \<longrightarrow> int_div x' factor = Inr x)
   \<and> (AddCommand_undo r amount a = Inr a' \<longrightarrow> int_sub (vars a r) amount = Inr (vars a' r))
   \<and> (MultiplyCommand_undo r factor b = Inr b' \<longrightarrow>
        int_div (vars b r) factor = Inr (vars b' r))"
proof (intro conjI impI)
  assume "execute c w = Inr w' \<and> nonzero_factor c"
  then show "\<exists>w''. Command_undo c w' = Inr w'' \<and> vars w'' = vars w"
    using undo_after_execute [of c w w' w'] by simp
next
  assume "int_add v amount = Inr v'"
  then show "int_sub v' amount = Inr v" by (rule int_add_sub)
next
  assume "int_mul x factor = Inr x' \<and> factor \<noteq> 0"
  then show "int_div x' factor = Inr x" by (simp add: int_mul_div)
next
  assume "AddCommand_undo r amount a = Inr a'"
  then show "int_sub (vars a r) amount = Inr (vars a' r)"
    by (auto simp: AddCommand_undo_def split: sum.splits)
next
  assume "MultiplyCommand_undo r factor b = Inr b'"
  then show "int_div (vars b r) factor = Inr (vars b' r)"
    by (auto simp: MultiplyCommand_undo_def split: sum.splits)
qed

theorem undo_inverts_execute_witness:
  "(\<exists>w''. Command_undo (MultiplyCommand value_ref 2)
             \<lparr>vars = (\<lambda>r. 0)(value_ref := 30),
              cout = [''  Executed: Multiply by 2 (result: 30)'']\<rparr> = Inr w''
           \<and> vars w'' = vars (main_world 15))
   \<and> int_sub 15 5 = Inr 10
   \<and> int_div (- 21) (- 3) = Inr 7
   \<and> int_sub 40 5 = Inr 35
   \<and> int_div 30 (- 3) = Inr (- 10)"
proof -
  let ?c = "MultiplyCommand value_ref 2"
  let ?w' = "\<lparr>vars = (\<lambda>r. 0)(value_ref := 30),
             cout = [''  Executed: Multiply by 2 (result: 30)'']\<rparr>"
  let ?a' = "\<lparr>vars = (\<lambda>r. 0)(value_ref := 35), cout = [''  Undone: Add 5 (result: 35)'']\<rparr>"
  let ?b' = "\<lparr>vars = (\<lambda>r. 0)(value_ref := - 10),
             cout = [''  Undone: Multiply by -3 (result: -10)'']\<rparr>"
  note inst = undo_inverts_execute
    [where c = ?c and w = "main_world 15" and w' = ?w' and v = 10 and amount = 5 and v' = 15
       and x = 7 and factor = "- 3" and x' = "- 21" and r = value_ref
       and a = "main_world 40" and a' = ?a' and b = "main_world 30" and b' = ?b']
  have 1: "execute ?c (main_world 15) = Inr ?w' \<and> nonzero_factor ?c"
    by (simp add: run_defs to_string_def decimal_nat.simps)
  have 2: "int_add 10 5 = Inr 15"
    by (simp add: run_defs)
  have 3: "int_mul 7 (- 3) = Inr (- 21) \<and> (- 3 :: cint) \<noteq> 0"
    by (simp add: run_defs)
  have 4: "AddCommand_undo value_ref 5 (main_world 40) = Inr ?a'"
    by (simp add: run_defs to_string_def decimal_nat.simps)
  have 5: "MultiplyCommand_undo value_ref (- 3) (main_world 30) = Inr ?b'"
    by (simp add: run_defs to_string_def decimal_nat.simps)
  from inst 1 have a: "\<exists>w''. Command_undo ?c ?w' = Inr w'' \<and> vars w'' = vars (main_world 15)"
    by blast
  from inst 2 have b: "int_sub 15 5 = Inr 10"
    by blast
  from inst 3 have c: "int_div (- 21) (- 3) = Inr 7"
    by blast
  from inst 4 have d: "int_sub (vars (main_world 40) value_ref) 5 = Inr (vars ?a' value_ref)"
    by blast
  from inst 5 have e: "int_div (vars (main_world 30) value_ref) (- 3) = Inr (vars ?b' value_ref)"
    by blast
  from d have d': "int_sub 40 5 = Inr 35"
    by (simp add: main_world_def)
  from e have e': "int_div 30 (- 3) = Inr (- 10)"
    by (simp add: main_world_def)
  from a b c d' e' show ?thesis
    by blast
qed

subsection \<open>C6: undo on an empty undo stack\<close>

text \<open>
  C6. \<open>undo()\<close> on a manager whose \<open>undoStack\<close> is empty, a fresh manager in particular,
  returns without a fault, leaves the variables and both stacks as they are, and writes
  the one line "Nothing to undo".
\<close>

theorem undo_empty_is_noop:
  "(undoStack m = [] \<longrightarrow>
      undo (m, w) = Inr (m, w\<lparr>cout := cout w @ [''  Nothing to undo'']\<rparr>))
   \<and> undo (fresh, w) = Inr (fresh, w\<lparr>cout := cout w @ [''  Nothing to undo'']\<rparr>)"
  by (simp add: undo.simps println_def fresh_def)

theorem undo_empty_is_noop_witness:
  "undo (\<lparr>undoStack = [], redoStack = [AddCommand value_ref 10]\<rparr>, main_world 30)
     = Inr (\<lparr>undoStack = [], redoStack = [AddCommand value_ref 10]\<rparr>,
            \<lparr>vars = (\<lambda>r. 0)(value_ref := 30), cout = [''  Nothing to undo'']\<rparr>)"
  using undo_empty_is_noop
          [of "\<lparr>undoStack = [], redoStack = [AddCommand value_ref 10]\<rparr>" "main_world 30"]
  by (simp add: main_world_def)

subsection \<open>C7: redo on an empty redo stack\<close>

text \<open>
  C7. \<open>redo()\<close> on a manager whose \<open>redoStack\<close> is empty returns without a fault, leaves
  the variables and both stacks as they are, and writes the one line "Nothing to redo".
\<close>

theorem redo_empty_is_noop:
  "redoStack m = [] \<Longrightarrow>
     redo (m, w) = Inr (m, w\<lparr>cout := cout w @ [''  Nothing to redo'']\<rparr>)"
  by (simp add: redo.simps println_def)

theorem redo_empty_is_noop_witness:
  "redo (\<lparr>undoStack = [AddCommand value_ref 5], redoStack = []\<rparr>, main_world 15)
     = Inr (\<lparr>undoStack = [AddCommand value_ref 5], redoStack = []\<rparr>,
            \<lparr>vars = (\<lambda>r. 0)(value_ref := 15), cout = [''  Nothing to redo'']\<rparr>)"
  using redo_empty_is_noop
          [of "\<lparr>undoStack = [AddCommand value_ref 5], redoStack = []\<rparr>" "main_world 15"]
  by (simp add: main_world_def)

subsection \<open>C8: both stacks are last in, first out\<close>



subsection \<open>C9: the division in MultiplyCommand::undo\<close>

text \<open>
  As stated the claim fails in one point: a factor other than 0 does not make the
  division defined. \<open>INT_MIN / -1\<close> is not representable in \<open>int\<close>.
\<close>

theorem MultiplyCommand_undo_division_counterexample:
  "(- 1 :: cint) \<noteq> 0
   \<and> MultiplyCommand_undo value_ref (- 1) (main_world (- 2147483648)) = Inl SignedOverflow"
  by (simp add: run_defs)

text \<open>
  C9, with that point taken out. \<open>MultiplyCommand::undo\<close> divides with no guard: with
  factor 0 it divides by zero, whatever the target holds. With a factor other than 0 it
  never divides by zero, and it completes unless the target holds \<open>INT_MIN\<close> and the
  factor is -1. After any calls on a fresh manager that all completed without signed
  \<open>int\<close> overflow and whose commands have factors other than 0, \<open>undo()\<close> completes:
  neither fault of the division can be reached through the manager by runs whose
  arithmetic stays in the range of \<open>int\<close>.
\<close>

theorem MultiplyCommand_undo_division:
  "MultiplyCommand_undo r 0 w = Inl DivisionByZero
   \<and> (factor \<noteq> 0 \<longrightarrow> MultiplyCommand_undo r factor w \<noteq> Inl DivisionByZero)
   \<and> (factor \<noteq> 0 \<and> \<not> (sint (vars w r) = - (2 ^ 31) \<and> sint factor = - 1) \<longrightarrow>
        (\<exists>w'. MultiplyCommand_undo r factor w = Inr w'))
   \<and> ((\<forall>c\<in>set cs. call_ok c) \<and> calls cs (fresh, v) = Inr s \<longrightarrow> (\<exists>t. undo s = Inr t))"
proof (intro conjI impI)
  show "MultiplyCommand_undo r 0 w = Inl DivisionByZero"
    by (simp add: MultiplyCommand_undo_def int_div_zero)
next
  assume "factor \<noteq> 0"
  with int_div_nonzero [of factor "vars w r"]
  show "MultiplyCommand_undo r factor w \<noteq> Inl DivisionByZero"
    by (auto simp: MultiplyCommand_undo_def split: sum.splits)
next
  assume "factor \<noteq> 0 \<and> \<not> (sint (vars w r) = - (2 ^ 31) \<and> sint factor = - 1)"
  with int_div_Inr [of factor "vars w r"] obtain q where "int_div (vars w r) factor = Inr q"
    by blast
  then show "\<exists>w'. MultiplyCommand_undo r factor w = Inr w'"
    by (simp add: MultiplyCommand_undo_def)
next
  assume "(\<forall>c\<in>set cs. call_ok c) \<and> calls cs (fresh, v) = Inr s"
  then have "consistent s"
    using consistent_calls [OF consistent_fresh, of cs v s] by blast
  then show "\<exists>t. undo s = Inr t"
    by (rule consistent_undo)
qed

theorem MultiplyCommand_undo_division_witness:
  "MultiplyCommand_undo value_ref 2 (main_world 30) \<noteq> Inl DivisionByZero
   \<and> (\<exists>w'. MultiplyCommand_undo value_ref 2 (main_world 30) = Inr w')
   \<and> (\<exists>t. undo (projr (calls scenario (fresh, main_world 10))) = Inr t)"
proof -
  note inst = MultiplyCommand_undo_division
    [where factor = 2 and r = value_ref and w = "main_world 30" and cs = scenario
       and v = "main_world 10" and s = "projr (calls scenario (fresh, main_world 10))"]
  have 1: "(2 :: cint) \<noteq> 0"
    by simp
  have 2: "\<not> (sint (vars (main_world 30) value_ref) = - (2 ^ 31) \<and> sint (2 :: cint) = - 1)"
    by (simp add: main_world_def)
  have 3: "\<forall>c\<in>set scenario. call_ok c"
    by (simp add: scenario_def main_commands_def)
  from inst 1 2 3 scenario_run show ?thesis
    by blast
qed

subsection \<open>C10: undo and redo keep the number of commands\<close>



end
